theory Spec2Isabelle
  imports Complex_Main "HOL-Library.Multiset" "HOL-Library.Product_Lexorder"
begin

section \<open>Clause comparison: texts, collaborators and results\<close>

text \<open>
  A Python \<open>str\<close> is a sequence of Unicode code points; most of the characters the
  comparators treat specially lie outside ASCII, so a text is modelled as the list of its
  code points (\<open>len\<close> is \<open>length\<close>, \<open>==\<close> is equality of lists).

  The tokenizer \<open>jieba.cut\<close>, the romanizer \<open>pypinyin.lazy_pinyin\<close> and the sentence
  encoder \<open>SentenceTransformer.encode\<close> are external collaborators. They are parameters
  of the functions that call them: \<open>jieba_cut\<close> and \<open>lazy_pinyin\<close> map a text to its
  list of tokens, \<open>encode\<close> maps a text to its vector (the row of the text in the array that
  \<open>model.encode\<close> returns).

  Python floats are modelled as exact reals: the scores below are the rational numbers
  the float expressions approximate.
\<close>

type_synonym ustring = "nat list"

datatype py_error = ZeroDivisionError | ValueError

section \<open>\<open>difflib.SequenceMatcher(None, a, b).ratio()\<close>\<close>

text \<open>
  Both comparators score character and syllable sequences with the standard library's
  \<open>SequenceMatcher\<close>, built with \<open>isjunk = None\<close> and the default \<open>autojunk = True\<close>.
  The definitions follow \<open>difflib.py\<close> method by method.

  \<open>__chain_b\<close> maps every element of \<open>b\<close> to the increasing list of its positions, then
  (autojunk) deletes the elements that occur more than \<open>n // 100 + 1\<close> times when
  \<open>n = len(b) \<ge> 200\<close>. With \<open>isjunk = None\<close> the junk set stays empty.
\<close>

definition b2j_append :: "nat \<times> 'a \<Rightarrow> ('a \<rightharpoonup> nat list) \<Rightarrow> ('a \<rightharpoonup> nat list)" where
  "b2j_append p m =
     (case p of (i, elt) \<Rightarrow>
        m(elt \<mapsto> (case m elt of None \<Rightarrow> [] | Some indices \<Rightarrow> indices) @ [i]))"

definition purge_popular :: "nat \<Rightarrow> ('a \<rightharpoonup> nat list) \<Rightarrow> ('a \<rightharpoonup> nat list)" where
  "purge_popular n m =
     (if n \<ge> 200
      then (\<lambda>elt. case m elt of
                    None \<Rightarrow> None
                  | Some idxs \<Rightarrow> if length idxs > n div 100 + 1 then None else Some idxs)
      else m)"

definition chain_b :: "'a list \<Rightarrow> ('a \<rightharpoonup> nat list)" where
  "chain_b b = purge_popular (length b) (fold b2j_append (enumerate 0 b) Map.empty)"

definition b2j_get :: "('a \<rightharpoonup> nat list) \<Rightarrow> 'a \<Rightarrow> nat list" where
  \<comment> \<open>\<open>b2j.get(elt, nothing)\<close> with \<open>nothing = []\<close>\<close>
  "b2j_get b2j elt = (case b2j elt of None \<Rightarrow> [] | Some indices \<Rightarrow> indices)"

definition j2len_get :: "(nat \<rightharpoonup> nat) \<Rightarrow> nat \<Rightarrow> nat" where
  \<comment> \<open>\<open>j2len.get(j - 1, 0)\<close>: for \<open>j = 0\<close> the key is \<open>-1\<close>, which is never stored\<close>
  "j2len_get j2len j =
     (if j = 0 then 0 else case j2len (j - 1) of None \<Rightarrow> 0 | Some k \<Rightarrow> k)"

text \<open>
  The inner loop of \<open>find_longest_match\<close> over the positions \<open>j\<close> of \<open>a[i]\<close> in \<open>b\<close>:
  \<open>continue\<close> below \<open>blo\<close>, \<open>break\<close> from \<open>bhi\<close> on. The state is \<open>newj2len\<close> and the
  best block \<open>(besti, bestj, bestsize)\<close>. Positions are natural numbers; \<open>i - k + 1\<close> is
  written \<open>i + 1 - k\<close>, which is the same number since \<open>k \<le> i + 1\<close> whenever it is formed.
\<close>

fun flm_inner ::
  "nat \<Rightarrow> nat \<Rightarrow> nat \<Rightarrow> (nat \<rightharpoonup> nat) \<Rightarrow> nat list \<Rightarrow>
     (nat \<rightharpoonup> nat) \<times> (nat \<times> nat \<times> nat) \<Rightarrow> (nat \<rightharpoonup> nat) \<times> (nat \<times> nat \<times> nat)" where
  "flm_inner i blo bhi j2len [] st = st"
| "flm_inner i blo bhi j2len (j # js) (newj2len, besti, bestj, bestsize) =
     (if j < blo then flm_inner i blo bhi j2len js (newj2len, besti, bestj, bestsize)
      else if j \<ge> bhi then (newj2len, besti, bestj, bestsize)
      else let k = j2len_get j2len j + 1
           in if k > bestsize
              then flm_inner i blo bhi j2len js (newj2len(j \<mapsto> k), i + 1 - k, j + 1 - k, k)
              else flm_inner i blo bhi j2len js (newj2len(j \<mapsto> k), besti, bestj, bestsize))"

text \<open>The outer loop \<open>for i in range(alo, ahi)\<close>; its state is \<open>j2len\<close> and the best block.\<close>

fun flm_outer ::
  "'a list \<Rightarrow> ('a \<rightharpoonup> nat list) \<Rightarrow> nat \<Rightarrow> nat \<Rightarrow> nat list \<Rightarrow>
     (nat \<rightharpoonup> nat) \<times> (nat \<times> nat \<times> nat) \<Rightarrow> nat \<times> nat \<times> nat" where
  "flm_outer a b2j blo bhi [] (j2len, best) = best"
| "flm_outer a b2j blo bhi (i # is) (j2len, best) =
     flm_outer a b2j blo bhi is
       (flm_inner i blo bhi j2len (b2j_get b2j (a ! i)) (Map.empty, best))"

text \<open>
  The two \<open>while\<close> loops that extend the best block by equal elements on each end. The
  conjunct \<open>not isbjunk(...)\<close> is true throughout (no junk), and for the same reason the
  second pair of loops in the source, which absorbs junk, never runs.
\<close>

function extend_back :: "'a list \<Rightarrow> 'a list \<Rightarrow> nat \<Rightarrow> nat \<Rightarrow> nat \<times> nat \<times> nat \<Rightarrow> nat \<times> nat \<times> nat" where
  "extend_back a b alo blo (besti, bestj, bestsize) =
     (if besti > alo \<and> bestj > blo \<and> a ! (besti - 1) = b ! (bestj - 1)
      then extend_back a b alo blo (besti - 1, bestj - 1, bestsize + 1)
      else (besti, bestj, bestsize))"
  by pat_completeness auto
termination
  by (relation "measure (\<lambda>(a, b, alo, blo, besti, bestj, bestsize). besti)") auto

function extend_fwd :: "'a list \<Rightarrow> 'a list \<Rightarrow> nat \<Rightarrow> nat \<Rightarrow> nat \<times> nat \<times> nat \<Rightarrow> nat \<times> nat \<times> nat" where
  "extend_fwd a b ahi bhi (besti, bestj, bestsize) =
     (if besti + bestsize < ahi \<and> bestj + bestsize < bhi
         \<and> a ! (besti + bestsize) = b ! (bestj + bestsize)
      then extend_fwd a b ahi bhi (besti, bestj, bestsize + 1)
      else (besti, bestj, bestsize))"
  by pat_completeness auto
termination
  by (relation "measure (\<lambda>(a, b, ahi, bhi, besti, bestj, bestsize). ahi - (besti + bestsize))") auto

definition find_longest_match ::
  "'a list \<Rightarrow> ('a \<rightharpoonup> nat list) \<Rightarrow> 'a list \<Rightarrow> nat \<Rightarrow> nat \<Rightarrow> nat \<Rightarrow> nat \<Rightarrow> nat \<times> nat \<times> nat" where
  "find_longest_match a b2j b alo ahi blo bhi =
     extend_fwd a b ahi bhi
       (extend_back a b alo blo
          (flm_outer a b2j blo bhi [alo..<ahi] (Map.empty, alo, blo, 0)))"

subsection \<open>The block that \<open>find_longest_match\<close> returns lies inside its window\<close>

text \<open>
  \<open>entries_ok\<close> is the loop invariant on \<open>j2len\<close>: an entry \<open>j \<mapsto> k\<close> records a run of
  \<open>k\<close> equal elements ending at \<open>b[j]\<close>, which fits between \<open>blo\<close> and \<open>j\<close> and is no
  longer than the part of \<open>a\<close> scanned so far. \<open>block_ok\<close> says that a block is either the
  initial empty one or lies inside the window.
\<close>

definition entries_ok :: "nat \<Rightarrow> nat \<Rightarrow> nat \<Rightarrow> (nat \<rightharpoonup> nat) \<Rightarrow> bool" where
  "entries_ok n blo bhi m \<longleftrightarrow> (\<forall>j k. m j = Some k \<longrightarrow> k \<le> n \<and> k + blo \<le> j + 1 \<and> j < bhi)"

definition block_ok :: "nat \<Rightarrow> nat \<Rightarrow> nat \<Rightarrow> nat \<Rightarrow> nat \<times> nat \<times> nat \<Rightarrow> bool" where
  "block_ok alo ahi blo bhi x =
     (case x of (i, j, k) \<Rightarrow>
        (k = 0 \<and> i = alo \<and> j = blo) \<or> (alo \<le> i \<and> blo \<le> j \<and> i + k \<le> ahi \<and> j + k \<le> bhi))"

lemma j2len_get_bound:
  assumes "entries_ok n blo bhi j2len" "blo \<le> j"
  shows "j2len_get j2len j \<le> n \<and> j2len_get j2len j + blo \<le> j"
proof (cases "j = 0")
  case True
  then show ?thesis using assms by (simp add: j2len_get_def)
next
  case False
  show ?thesis
  proof (cases "j2len (j - 1)")
    case None
    then show ?thesis using False assms by (simp add: j2len_get_def)
  next
    case (Some k)
    with assms(1) have "k \<le> n \<and> k + blo \<le> (j - 1) + 1"
      unfolding entries_ok_def by blast
    then show ?thesis using False Some by (simp add: j2len_get_def)
  qed
qed

lemma flm_inner_ok:
  assumes "alo \<le> i" "i < ahi" "entries_ok (i - alo) blo bhi j2len"
    "entries_ok (i + 1 - alo) blo bhi new" "block_ok alo ahi blo bhi best"
  shows "case flm_inner i blo bhi j2len js (new, best) of
           (new', best') \<Rightarrow> entries_ok (i + 1 - alo) blo bhi new' \<and> block_ok alo ahi blo bhi best'"
  using assms(4,5)
proof (induction js arbitrary: new best)
  case Nil
  then show ?case by simp
next
  case (Cons j js)
  obtain bi bj bs where best: "best = (bi, bj, bs)" by (cases best)
  show ?case
  proof (cases "j < blo \<or> bhi \<le> j")
    case True
    then show ?thesis using Cons best by auto
  next
    case False
    define k where "k = j2len_get j2len j + 1"
    from False have j: "blo \<le> j" "j < bhi" by auto
    from j2len_get_bound[OF assms(3) j(1)]
    have kb: "k \<le> i + 1 - alo" "k + blo \<le> j + 1" "1 \<le> k"
      using assms(1) by (auto simp: k_def)
    have new': "entries_ok (i + 1 - alo) blo bhi (new(j \<mapsto> k))"
      using Cons.prems(1) kb j unfolding entries_ok_def by auto
    have blk: "block_ok alo ahi blo bhi (i + 1 - k, j + 1 - k, k)"
      using kb j assms(1,2) unfolding block_ok_def by auto
    show ?thesis
    proof (cases "k > bs")
      case True
      then have "flm_inner i blo bhi j2len (j # js) (new, best) =
          flm_inner i blo bhi j2len js (new(j \<mapsto> k), i + 1 - k, j + 1 - k, k)"
        using False unfolding best k_def by (simp add: Let_def)
      then show ?thesis using Cons.IH[OF new' blk] by presburger
    next
      case F2: False
      then have "flm_inner i blo bhi j2len (j # js) (new, best) =
          flm_inner i blo bhi j2len js (new(j \<mapsto> k), best)"
        using False unfolding best k_def by (simp add: Let_def)
      then show ?thesis using Cons.IH[OF new' Cons.prems(2)] by presburger
    qed
  qed
qed

lemma block_ok_init: "block_ok alo ahi blo bhi (alo, blo, 0)"
  by (simp add: block_ok_def)

lemma entries_ok_empty: "entries_ok n blo bhi Map.empty"
  by (simp add: entries_ok_def)

lemma flm_outer_ok:
  assumes "alo \<le> i" "entries_ok (i - alo) blo bhi j2len" "block_ok alo ahi blo bhi best"
  shows "block_ok alo ahi blo bhi (flm_outer a b2j blo bhi [i..<ahi] (j2len, best))"
  using assms
proof (induction "ahi - i" arbitrary: i j2len best)
  case 0
  then show ?case by simp
next
  case (Suc n)
  then have lt: "i < ahi" by simp
  obtain new' best' where r:
    "flm_inner i blo bhi j2len (b2j_get b2j (a ! i)) (Map.empty, best) = (new', best')"
    by (cases "flm_inner i blo bhi j2len (b2j_get b2j (a ! i)) (Map.empty, best)")
  from flm_inner_ok[OF Suc.prems(1) lt Suc.prems(2) entries_ok_empty Suc.prems(3),
      of "b2j_get b2j (a ! i)"] r
  have ok: "entries_ok (Suc i - alo) blo bhi new'" "block_ok alo ahi blo bhi best'"
    by simp_all
  have "n = ahi - Suc i" using Suc.hyps(2) by simp
  from Suc.hyps(1)[OF this _ ok] Suc.prems(1)
  have "block_ok alo ahi blo bhi (flm_outer a b2j blo bhi [Suc i..<ahi] (new', best'))"
    by simp
  then show ?case using lt r by (simp add: upt_conv_Cons)
qed

declare extend_back.simps [simp del] extend_fwd.simps [simp del]

lemma extend_back_ok:
  "block_ok alo ahi blo bhi x \<Longrightarrow> block_ok alo ahi blo bhi (extend_back a b alo blo x)"
proof (induction a b alo blo x rule: extend_back.induct)
  case (1 a b alo blo besti bestj bestsize)
  show ?case
  proof (cases "besti > alo \<and> bestj > blo \<and> a ! (besti - 1) = b ! (bestj - 1)")
    case True
    then have "block_ok alo ahi blo bhi (besti - 1, bestj - 1, bestsize + 1)"
      using "1.prems" by (auto simp: block_ok_def)
    from "1.IH"[OF True this] True show ?thesis
      by (subst extend_back.simps) simp
  next
    case False
    then show ?thesis using "1.prems" by (subst extend_back.simps) auto
  qed
qed

lemma extend_fwd_ok:
  "block_ok alo ahi blo bhi x \<Longrightarrow> block_ok alo ahi blo bhi (extend_fwd a b ahi bhi x)"
proof (induction a b ahi bhi x rule: extend_fwd.induct)
  case (1 a b ahi bhi besti bestj bestsize)
  show ?case
  proof (cases "besti + bestsize < ahi \<and> bestj + bestsize < bhi
         \<and> a ! (besti + bestsize) = b ! (bestj + bestsize)")
    case True
    then have "block_ok alo ahi blo bhi (besti, bestj, bestsize + 1)"
      using "1.prems" by (auto simp: block_ok_def)
    from "1.IH"[OF True this] True show ?thesis
      by (subst extend_fwd.simps) simp
  next
    case False
    then show ?thesis using "1.prems" by (subst extend_fwd.simps) auto
  qed
qed

lemma find_longest_match_ok:
  "block_ok alo ahi blo bhi (find_longest_match a b2j b alo ahi blo bhi)"
  unfolding find_longest_match_def
  by (intro extend_fwd_ok extend_back_ok flm_outer_ok block_ok_init entries_ok_empty order_refl)

subsection \<open>\<open>get_matching_blocks\<close> and \<open>ratio\<close>\<close>

text \<open>
  \<open>get_matching_blocks\<close> keeps a list \<open>queue\<close> of windows still to look at, used as a stack:
  \<open>queue.pop()\<close> takes the window appended last. The model keeps the top of the stack at
  the head of the list, so the window to the right of a match, appended last, comes first.
  The loop terminates because a match of positive size leaves two windows that together are
  strictly shorter than the one popped.
\<close>

definition push_regions ::
  "nat \<times> nat \<times> nat \<times> nat \<Rightarrow> nat \<times> nat \<times> nat \<Rightarrow> (nat \<times> nat \<times> nat \<times> nat) list
     \<Rightarrow> (nat \<times> nat \<times> nat \<times> nat) list" where
  "push_regions r x queue =
     (case r of (alo, ahi, blo, bhi) \<Rightarrow> case x of (i, j, k) \<Rightarrow>
        (if i + k < ahi \<and> j + k < bhi then [(i + k, ahi, j + k, bhi)] else [])
        @ (if alo < i \<and> blo < j then [(alo, i, blo, j)] else [])
        @ queue)"

definition queue_size :: "(nat \<times> nat \<times> nat \<times> nat) list \<Rightarrow> nat" where
  "queue_size queue = sum_list (map (\<lambda>(alo, ahi, blo, bhi). 2 * (ahi - alo) + 1) queue)"

lemma queue_size_push:
  assumes "block_ok alo ahi blo bhi (i, j, k)" "k \<noteq> 0"
  shows "queue_size (push_regions (alo, ahi, blo, bhi) (i, j, k) queue)
           < queue_size ((alo, ahi, blo, bhi) # queue)"
  using assms by (auto simp: queue_size_def push_regions_def block_ok_def)

function mb_loop ::
  "'a list \<Rightarrow> ('a \<rightharpoonup> nat list) \<Rightarrow> 'a list \<Rightarrow> (nat \<times> nat \<times> nat \<times> nat) list
     \<Rightarrow> (nat \<times> nat \<times> nat) list \<Rightarrow> (nat \<times> nat \<times> nat) list" where
  "mb_loop a b2j b [] matching_blocks = matching_blocks"
| "mb_loop a b2j b ((alo, ahi, blo, bhi) # queue) matching_blocks =
     (let x = find_longest_match a b2j b alo ahi blo bhi
      in if snd (snd x) \<noteq> 0
         then mb_loop a b2j b (push_regions (alo, ahi, blo, bhi) x queue) (matching_blocks @ [x])
         else mb_loop a b2j b queue matching_blocks)"
  by pat_completeness auto
termination
proof (relation "measure (\<lambda>(a, b2j, b, queue, blocks). queue_size queue)", goal_cases)
  case 1
  show ?case by simp
next
  case (2 a b2j b alo ahi blo bhi queue blocks x)
  obtain i j k where x: "find_longest_match a b2j b alo ahi blo bhi = (i, j, k)"
    by (cases "find_longest_match a b2j b alo ahi blo bhi")
  have "block_ok alo ahi blo bhi (i, j, k)" "k \<noteq> 0"
    using find_longest_match_ok[of alo ahi blo bhi a b2j b] 2 x by simp_all
  from queue_size_push[OF this, of queue] show ?case
    using 2(1) x by simp
next
  case (3 a b2j b alo ahi blo bhi queue blocks x)
  show ?case by (simp add: queue_size_def)
qed

declare mb_loop.simps [simp del]

text \<open>
  After the loop: \<open>matching_blocks.sort()\<close> (tuples compare lexicographically), the pass
  that merges adjacent blocks, and the sentinel \<open>(la, lb, 0)\<close>.
\<close>

fun collapse ::
  "nat \<times> nat \<times> nat \<Rightarrow> (nat \<times> nat \<times> nat) list \<Rightarrow> (nat \<times> nat \<times> nat) list
     \<Rightarrow> (nat \<times> nat \<times> nat) list" where
  "collapse (i1, j1, k1) non_adjacent [] =
     (if k1 \<noteq> 0 then non_adjacent @ [(i1, j1, k1)] else non_adjacent)"
| "collapse (i1, j1, k1) non_adjacent ((i2, j2, k2) # rest) =
     (if i1 + k1 = i2 \<and> j1 + k1 = j2
      then collapse (i1, j1, k1 + k2) non_adjacent rest
      else collapse (i2, j2, k2)
             (if k1 \<noteq> 0 then non_adjacent @ [(i1, j1, k1)] else non_adjacent) rest)"

definition get_matching_blocks :: "'a list \<Rightarrow> 'a list \<Rightarrow> (nat \<times> nat \<times> nat) list" where
  "get_matching_blocks a b =
     (let la = length a; lb = length b;
          matching_blocks = mb_loop a (chain_b b) b [(0, la, 0, lb)] []
      in collapse (0, 0, 0) [] (sort matching_blocks) @ [(la, lb, 0)])"

definition calculate_ratio :: "nat \<Rightarrow> nat \<Rightarrow> real" where
  "calculate_ratio matches len = (if len \<noteq> 0 then 2 * real matches / real len else 1)"

definition ratio :: "'a list \<Rightarrow> 'a list \<Rightarrow> real" where
  "ratio a b =
     calculate_ratio (sum_list (map (\<lambda>triple. snd (snd triple)) (get_matching_blocks a b)))
       (length a + length b)"

subsection \<open>The ratio lies between 0 and 1\<close>

definition blocks_size :: "(nat \<times> nat \<times> nat) list \<Rightarrow> nat" where
  "blocks_size blocks = sum_list (map (\<lambda>triple. snd (snd triple)) blocks)"

definition windows_a :: "(nat \<times> nat \<times> nat \<times> nat) list \<Rightarrow> nat" where
  "windows_a queue = sum_list (map (\<lambda>(alo, ahi, blo, bhi). ahi - alo) queue)"

definition windows_b :: "(nat \<times> nat \<times> nat \<times> nat) list \<Rightarrow> nat" where
  "windows_b queue = sum_list (map (\<lambda>(alo, ahi, blo, bhi). bhi - blo) queue)"

lemma windows_push:
  assumes "block_ok alo ahi blo bhi (i, j, k)" "k \<noteq> 0"
  shows "windows_a (push_regions (alo, ahi, blo, bhi) (i, j, k) queue) + k
           \<le> windows_a ((alo, ahi, blo, bhi) # queue)"
    and "windows_b (push_regions (alo, ahi, blo, bhi) (i, j, k) queue) + k
           \<le> windows_b ((alo, ahi, blo, bhi) # queue)"
  using assms by (auto simp: windows_a_def windows_b_def push_regions_def block_ok_def)

lemma mb_loop_size:
  "blocks_size (mb_loop a b2j b queue blocks) \<le> blocks_size blocks + windows_a queue \<and>
   blocks_size (mb_loop a b2j b queue blocks) \<le> blocks_size blocks + windows_b queue"
proof (induction a b2j b queue blocks rule: mb_loop.induct)
  case (1 a b2j b blocks)
  show ?case by (simp add: mb_loop.simps)
next
  case (2 a b2j b alo ahi blo bhi queue blocks)
  obtain i j k where x: "find_longest_match a b2j b alo ahi blo bhi = (i, j, k)"
    by (cases "find_longest_match a b2j b alo ahi blo bhi")
  have ok: "block_ok alo ahi blo bhi (i, j, k)"
    using find_longest_match_ok[of alo ahi blo bhi a b2j b] x by simp
  show ?case
  proof (cases "k = 0")
    case True
    have "mb_loop a b2j b ((alo, ahi, blo, bhi) # queue) blocks = mb_loop a b2j b queue blocks"
      using x True by (simp add: mb_loop.simps Let_def)
    moreover have "windows_a queue \<le> windows_a ((alo, ahi, blo, bhi) # queue)"
      "windows_b queue \<le> windows_b ((alo, ahi, blo, bhi) # queue)"
      by (simp_all add: windows_a_def windows_b_def)
    ultimately show ?thesis using "2.IH"(2)[OF refl] x True by force
  next
    case False
    have eq: "mb_loop a b2j b ((alo, ahi, blo, bhi) # queue) blocks =
        mb_loop a b2j b (push_regions (alo, ahi, blo, bhi) (i, j, k) queue) (blocks @ [(i, j, k)])"
      using x False by (simp add: mb_loop.simps Let_def)
    have bs: "blocks_size (blocks @ [(i, j, k)]) = blocks_size blocks + k"
      by (simp add: blocks_size_def)
    from "2.IH"(1)[OF refl] x False
    have ih: "blocks_size (mb_loop a b2j b (push_regions (alo, ahi, blo, bhi) (i, j, k) queue) (blocks @ [(i, j, k)]))
         \<le> blocks_size (blocks @ [(i, j, k)]) + windows_a (push_regions (alo, ahi, blo, bhi) (i, j, k) queue)"
      "blocks_size (mb_loop a b2j b (push_regions (alo, ahi, blo, bhi) (i, j, k) queue) (blocks @ [(i, j, k)]))
         \<le> blocks_size (blocks @ [(i, j, k)]) + windows_b (push_regions (alo, ahi, blo, bhi) (i, j, k) queue)"
      by simp_all
    from windows_push[OF ok False, of queue] ih show ?thesis
      unfolding eq bs by linarith
  qed
qed

lemma blocks_size_collapse:
  "blocks_size (collapse (i1, j1, k1) acc blocks) = blocks_size acc + k1 + blocks_size blocks"
  by (induction "(i1, j1, k1)" acc blocks arbitrary: i1 j1 k1 rule: collapse.induct)
     (auto simp: blocks_size_def)

lemma blocks_size_sort: "blocks_size (sort blocks) = blocks_size blocks"
proof -
  have "sum_mset (image_mset (\<lambda>triple. snd (snd triple)) (mset (sort blocks)))
      = sum_mset (image_mset (\<lambda>triple. snd (snd triple)) (mset blocks))"
    by simp
  then show ?thesis
    unfolding blocks_size_def by (metis mset_map sum_mset_sum_list)
qed

lemma blocks_size_get_matching_blocks:
  "blocks_size (get_matching_blocks a b) \<le> length a \<and>
   blocks_size (get_matching_blocks a b) \<le> length b"
proof -
  have "blocks_size (get_matching_blocks a b)
      = blocks_size (mb_loop a (chain_b b) b [(0, length a, 0, length b)] [])"
    unfolding get_matching_blocks_def Let_def
    using blocks_size_collapse[of 0 0 0 "[]"]
    by (simp add: blocks_size_def blocks_size_sort[unfolded blocks_size_def])
  then show ?thesis
    using mb_loop_size[of a "chain_b b" b "[(0, length a, 0, length b)]" "[]"]
    by (simp add: blocks_size_def windows_a_def windows_b_def)
qed

lemma ratio_range: "0 \<le> ratio a b \<and> ratio a b \<le> 1"
proof -
  let ?m = "blocks_size (get_matching_blocks a b)"
  have "2 * ?m \<le> length a + length b"
    using blocks_size_get_matching_blocks[of a b] by linarith
  then have "2 * real ?m \<le> real (length a + length b)"
    by (metis of_nat_le_iff of_nat_mult of_nat_numeral)
  then show ?thesis
    unfolding ratio_def calculate_ratio_def blocks_size_def[symmetric]
    by (auto simp: divide_le_eq)
qed

section \<open>Python text primitives\<close>

text \<open>
  \<open>is_space\<close> is the whitespace test shared by the regular expression class \<open>\s\<close>
  on \<open>str\<close> patterns and by \<open>str.strip()\<close>: the code points for which
  \<open>str.isspace()\<close> holds.
\<close>

definition is_space :: "nat \<Rightarrow> bool" where
  "is_space c \<longleftrightarrow>
     (0x09 \<le> c \<and> c \<le> 0x0D) \<or> (0x1C \<le> c \<and> c \<le> 0x20) \<or> c = 0x85 \<or> c = 0xA0
     \<or> c = 0x1680 \<or> (0x2000 \<le> c \<and> c \<le> 0x200A) \<or> c = 0x2028 \<or> c = 0x2029
     \<or> c = 0x202F \<or> c = 0x205F \<or> c = 0x3000"

text \<open>\<open>re.sub(r'\s+', '', text)\<close>: every maximal run of whitespace is replaced by nothing.\<close>

function re_sub_ws :: "ustring \<Rightarrow> ustring" where
  "re_sub_ws [] = []"
| "re_sub_ws (c # cs) =
     (if is_space c then re_sub_ws (dropWhile is_space cs) else c # re_sub_ws cs)"
  by pat_completeness auto
termination
  by (relation "measure length") (auto simp: length_dropWhile_le less_Suc_eq_le)

text \<open>
  \<open>text.replace(old, new)\<close>: the occurrences of \<open>old\<close> are replaced from left to right
  without overlap; an empty \<open>old\<close> matches before every character and at the end.
\<close>

function replace_ne :: "ustring \<Rightarrow> ustring \<Rightarrow> ustring \<Rightarrow> ustring" where
  "replace_ne old new [] = []"
| "replace_ne old new (c # cs) =
     (if old \<noteq> [] \<and> take (length old) (c # cs) = old
      then new @ replace_ne old new (drop (length old) (c # cs))
      else c # replace_ne old new cs)"
  by pat_completeness auto
termination
proof (relation "measure (\<lambda>(old, new, s). length s)", goal_cases)
  case 1
  show ?case by simp
next
  case (2 old new c cs)
  then have "0 < length old" by simp
  then show ?case by simp
next
  case 3
  show ?case by simp
qed

definition str_replace :: "ustring \<Rightarrow> ustring \<Rightarrow> ustring \<Rightarrow> ustring" where
  "str_replace old new s =
     (if old = [] then new @ concat (map (\<lambda>c. c # new) s) else replace_ne old new s)"

text \<open>\<open>sep.join(parts)\<close> and \<open>text.strip()\<close>.\<close>

fun join :: "ustring \<Rightarrow> ustring list \<Rightarrow> ustring" where
  "join sep [] = []"
| "join sep [x] = x"
| "join sep (x # y # ys) = x @ sep @ join sep (y # ys)"

definition str_strip :: "ustring \<Rightarrow> ustring" where
  "str_strip text = rev (dropWhile is_space (rev (dropWhile is_space text)))"

text \<open>
  \<open>collections.Counter(words)\<close>: a dictionary from each distinct word to the number of its
  occurrences, in the order of first occurrence. \<open>counter[word]\<close> is 0 for a missing word.
\<close>

fun counter_add :: "'a \<Rightarrow> ('a \<times> nat) list \<Rightarrow> ('a \<times> nat) list" where
  "counter_add w [] = [(w, 1)]"
| "counter_add w ((k, n) # kns) =
     (if k = w then (k, n + 1) # kns else (k, n) # counter_add w kns)"

definition Counter :: "'a list \<Rightarrow> ('a \<times> nat) list" where
  "Counter words = fold counter_add words []"

definition counter_keys :: "('a \<times> nat) list \<Rightarrow> 'a list" where
  "counter_keys counter = map fst counter"

definition counter_values :: "('a \<times> nat) list \<Rightarrow> nat list" where
  "counter_values counter = map snd counter"

definition counter_get :: "('a \<times> nat) list \<Rightarrow> 'a \<Rightarrow> nat" where
  "counter_get counter word = (case map_of counter word of None \<Rightarrow> 0 | Some n \<Rightarrow> n)"

section \<open>\<open>LightweightClauseComparator\<close>, the lightweight variant\<close>

text \<open>
  The configuration of \<open>__init__\<close>. The punctuation literal is two adjacent string
  literals, so it holds the ASCII double quote (twice) and no single quote:
  U+FF0C U+3002 U+FF01 U+FF1F U+FF1B U+FF1A U+0022 U+0022 U+FF08 U+FF09 U+3010 U+3011
  U+300A U+300B U+3001. The stopwords are twelve one-character words. \<open>number_map\<close> is kept
  in the order of the dictionary literal, which is the order the loop of \<open>preprocess\<close> visits.
\<close>

definition punctuation :: ustring where
  "punctuation = [0xFF0C, 0x3002, 0xFF01, 0xFF1F, 0xFF1B, 0xFF1A, 0x22, 0x22,
                  0xFF08, 0xFF09, 0x3010, 0x3011, 0x300A, 0x300B, 0x3001]"

definition stopwords :: "ustring list" where
  "stopwords = [[0x7684], [0x4E86], [0x4E14], [0x4E0E], [0x548C], [0x6216],
                [0x7531], [0x4ECE], [0x5230], [0x5BF9], [0x8BE5], [0x6B64]]"

definition number_map :: "(ustring \<times> ustring) list" where
  "number_map =
     [([0x4E00], [0x31]), ([0x4E8C], [0x32]), ([0x4E09], [0x33]), ([0x56DB], [0x34]),
      ([0x4E94], [0x35]), ([0x516D], [0x36]), ([0x4E03], [0x37]), ([0x516B], [0x38]),
      ([0x4E5D], [0x39]), ([0x5341], [0x31, 0x30]),
      ([0x58F9], [0x31]), ([0x8D30], [0x32]), ([0x53C1], [0x33]), ([0x8086], [0x34]),
      ([0x4F0D], [0x35]), ([0x9646], [0x36]), ([0x67D2], [0x37]), ([0x634C], [0x38]),
      ([0x7396], [0x39]), ([0x62FE], [0x31, 0x30])]"

definition preprocess :: "ustring \<Rightarrow> ustring" where
  "preprocess text =
     (let text = re_sub_ws text;
          text = fold (\<lambda>(cn_num, arab_num) text. str_replace cn_num arab_num text)
                   number_map text;
          text = str_replace [0xFF09] [0x29] (str_replace [0xFF08] [0x28] text)
      in text)"

definition remove_punctuation :: "ustring \<Rightarrow> ustring" where
  "remove_punctuation text = filter (\<lambda>char. char \<notin> set punctuation) text"

text \<open>
  \<open>get_words_similarity\<close>. \<open>common_words\<close> is a Python set; the sum over it does not depend
  on the order in which the set is visited.
\<close>

definition get_words_similarity :: "(ustring \<Rightarrow> ustring list) \<Rightarrow> ustring \<Rightarrow> ustring \<Rightarrow> real" where
  "get_words_similarity jieba_cut text1 text2 =
     (let words1 = filter (\<lambda>w. w \<notin> set stopwords) (jieba_cut text1);
          words2 = filter (\<lambda>w. w \<notin> set stopwords) (jieba_cut text2);
          counter1 = Counter words1;
          counter2 = Counter words2;
          common_words = set (counter_keys counter1) \<inter> set (counter_keys counter2)
      in if common_words = {} then 0
         else let numerator = (\<Sum>word\<in>common_words.
                                  min (counter_get counter1 word) (counter_get counter2 word));
                  denominator = max (sum_list (counter_values counter1)) (sum_list (counter_values counter2))
              in real numerator / real denominator)"

definition get_char_similarity :: "ustring \<Rightarrow> ustring \<Rightarrow> real" where
  "get_char_similarity text1 text2 = ratio text1 text2"

definition get_pinyin_similarity :: "(ustring \<Rightarrow> ustring list) \<Rightarrow> ustring \<Rightarrow> ustring \<Rightarrow> real" where
  "get_pinyin_similarity lazy_pinyin text1 text2 =
     (let pinyin1 = lazy_pinyin text1; pinyin2 = lazy_pinyin text2 in ratio pinyin1 pinyin2)"

text \<open>
  The third component of the result is a string on the two early returns and the
  dictionary \<open>details\<close> otherwise. \<open>Details\<close> carries the three signal values that the
  dictionary shows with three decimals.
\<close>

datatype reason = Str ustring | Details real real real

definition reason_exact :: ustring where
  "reason_exact = [0x5B8C, 0x5168, 0x5339, 0x914D]"

definition reason_punctuation :: ustring where
  "reason_punctuation = [0x4EC5, 0x6807, 0x70B9, 0x7B26, 0x53F7, 0x5DEE, 0x5F02]"

definition is_consistent ::
  "(ustring \<Rightarrow> ustring list) \<Rightarrow> (ustring \<Rightarrow> ustring list) \<Rightarrow> ustring \<Rightarrow> ustring \<Rightarrow> real
     \<Rightarrow> bool \<times> real \<times> reason" where
  "is_consistent jieba_cut lazy_pinyin clause_a clause_b threshold =
     (let clean_a = preprocess clause_a;
          clean_b = preprocess clause_b
      in if clean_a = clean_b then (True, 1, Str reason_exact)
         else let clean_a_no_punct = remove_punctuation clean_a;
                  clean_b_no_punct = remove_punctuation clean_b
              in if clean_a_no_punct = clean_b_no_punct
                 then (True, 99 / 100, Str reason_punctuation)
                 else let words_sim = get_words_similarity jieba_cut clean_a_no_punct clean_b_no_punct;
                          char_sim = get_char_similarity clean_a_no_punct clean_b_no_punct;
                          pinyin_sim = get_pinyin_similarity lazy_pinyin
                                         clean_a_no_punct clean_b_no_punct;
                          weighted_sim = words_sim * (5 / 10) + char_sim * (3 / 10)
                                           + pinyin_sim * (2 / 10);
                          details = Details words_sim char_sim pinyin_sim
                      in if weighted_sim \<ge> threshold then (True, weighted_sim, details)
                         else (False, weighted_sim, details))"

section \<open>\<open>ClauseComparator\<close>, the pipeline variant with the sentence encoder\<close>

text \<open>
  \<open>preprocess\<close> strips the text, keeps the characters \<open>char\<close> whose \<open>char.strip()\<close> is not
  empty, and deletes whitespace runs. \<open>remove_punctuation\<close>, \<open>get_char_similarity\<close> and the
  punctuation literal are the same as in the lightweight variant.
\<close>

definition preprocess_pipeline :: "ustring \<Rightarrow> ustring" where
  "preprocess_pipeline text =
     (let text = str_strip text;
          text = concat (map (\<lambda>char. str_strip [char])
                          (filter (\<lambda>char. str_strip [char] \<noteq> []) text));
          text = re_sub_ws text
      in text)"

text \<open>
  \<open>get_semantic_similarity\<close> is the cosine of the two embeddings. When a norm is zero,
  numpy divides zero by zero and yields \<open>nan\<close> without raising; \<open>None\<close> stands for that
  value. Every comparison with \<open>nan\<close> is false.
\<close>

definition np_dot :: "real list \<Rightarrow> real list \<Rightarrow> real" where
  "np_dot u v = sum_list (map2 (*) u v)"

definition np_linalg_norm :: "real list \<Rightarrow> real" where
  "np_linalg_norm v = sqrt (sum_list (map (\<lambda>x. x * x) v))"

definition get_semantic_similarity :: "(ustring \<Rightarrow> real list) \<Rightarrow> ustring \<Rightarrow> ustring \<Rightarrow> real option" where
  "get_semantic_similarity encode text1 text2 =
     (let embeddings = [encode text1, encode text2];
          d = np_linalg_norm (embeddings ! 0) * np_linalg_norm (embeddings ! 1)
      in if d = 0 then None else Some (np_dot (embeddings ! 0) (embeddings ! 1) / d))"

definition get_pinyin_similarity_pipeline ::
  "(ustring \<Rightarrow> ustring list) \<Rightarrow> ustring \<Rightarrow> ustring \<Rightarrow> real" where
  "get_pinyin_similarity_pipeline lazy_pinyin text1 text2 =
     (let pinyin1 = join [0x20] (lazy_pinyin text1);
          pinyin2 = join [0x20] (lazy_pinyin text2)
      in ratio pinyin1 pinyin2)"

definition reason_punctuation_pipeline :: ustring where
  "reason_punctuation_pipeline = [0x6807, 0x70B9, 0x7B26, 0x53F7, 0x5DEE, 0x5F02]"

definition reason_similar :: ustring where
  "reason_similar = [0x7EFC, 0x5408, 0x76F8, 0x4F3C, 0x5EA6, 0x3A, 0x20]"

definition reason_insufficient :: ustring where
  "reason_insufficient = [0x76F8, 0x4F3C, 0x5EA6, 0x4E0D, 0x8DB3, 0x3A, 0x20]"

text \<open>
  The score of the pipeline variant is \<open>None\<close> when the semantic similarity is \<open>nan\<close>; the
  verdict is then false, and \<open>FormattedP\<close> carries the prefix of the reason and the number
  that the format string prints.
\<close>

datatype reason_pipeline = StrP ustring | FormattedP ustring "real option"

definition is_consistent_pipeline ::
  "(ustring \<Rightarrow> real list) \<Rightarrow> (ustring \<Rightarrow> ustring list) \<Rightarrow> ustring \<Rightarrow> ustring \<Rightarrow> real
     \<Rightarrow> bool \<times> real option \<times> reason_pipeline" where
  "is_consistent_pipeline encode lazy_pinyin clause_a clause_b threshold =
     (let clean_a = preprocess_pipeline clause_a;
          clean_b = preprocess_pipeline clause_b
      in if clean_a = clean_b then (True, Some 1, StrP reason_exact)
         else let clean_a_no_punct = remove_punctuation clean_a;
                  clean_b_no_punct = remove_punctuation clean_b
              in if clean_a_no_punct = clean_b_no_punct
                 then (True, Some (99 / 100), StrP reason_punctuation_pipeline)
                 else let semantic_sim = get_semantic_similarity encode clean_a clean_b;
                          char_sim = get_char_similarity clean_a_no_punct clean_b_no_punct;
                          pinyin_sim = get_pinyin_similarity_pipeline lazy_pinyin
                                         clean_a_no_punct clean_b_no_punct;
                          weighted_sim = map_option
                            (\<lambda>semantic_sim. semantic_sim * (5 / 10) + char_sim * (3 / 10)
                                              + pinyin_sim * (2 / 10)) semantic_sim
                      in if (case weighted_sim of None \<Rightarrow> False | Some w \<Rightarrow> w \<ge> threshold)
                         then (True, weighted_sim, FormattedP reason_similar weighted_sim)
                         else (False, weighted_sim, FormattedP reason_insufficient weighted_sim))"

section \<open>\<open>calculate_similarities\<close>, the simplified variant\<close>

text \<open>
  The TF-IDF vectorizer and the product of its rows are external; \<open>tfidf_cosine\<close> stands
  for lines 42 to 44 applied to the two space-joined token streams and may raise. The
  Jaccard similarity divides the sizes of two Python sets; \<open>/\<close> raises
  \<open>ZeroDivisionError\<close> when the divisor is zero.
\<close>

record similarities =
  cosine_similarity :: real
  sequence_similarity :: real
  jaccard_similarity :: real

definition calculate_similarities ::
  "(ustring \<Rightarrow> ustring list) \<Rightarrow> (ustring \<Rightarrow> ustring \<Rightarrow> py_error + real) \<Rightarrow> ustring \<Rightarrow> ustring
     \<Rightarrow> py_error + similarities" where
  "calculate_similarities jieba_cut tfidf_cosine text1 text2 =
     (let text1_seg = join [0x20] (jieba_cut text1);
          text2_seg = join [0x20] (jieba_cut text2)
      in case tfidf_cosine text1_seg text2_seg of
           Inl e \<Rightarrow> Inl e
         | Inr cosine_sim \<Rightarrow>
             let sequence_sim = ratio text1 text2;
                 set1 = set (jieba_cut text1);
                 set2 = set (jieba_cut text2)
             in if card (set1 \<union> set2) = 0 then Inl ZeroDivisionError
                else Inr \<lparr>cosine_similarity = cosine_sim,
                          sequence_similarity = sequence_sim,
                          jaccard_similarity = real (card (set1 \<inter> set2)) / real (card (set1 \<union> set2))\<rparr>)"

section \<open>Stand-in collaborators for concrete evaluations\<close>

text \<open>
  Closed examples need concrete collaborators. \<open>chars_as_tokens\<close> emits every character
  as a token of its own; on the empty text and on a text of one character it returns what
  \<open>jieba.cut\<close> and \<open>lazy_pinyin\<close> return. \<open>sign_encode\<close> is an encoder with one dimension.
\<close>

definition chars_as_tokens :: "ustring \<Rightarrow> ustring list" where
  "chars_as_tokens text = map (\<lambda>c. [c]) text"

definition sign_encode :: "ustring \<Rightarrow> real list" where
  "sign_encode text = (if even (length text) then [1] else [-1])"


section \<open>Normalization, character by character\<close>

declare re_sub_ws.simps [simp del] replace_ne.simps [simp del]

lemma filter_dropWhile_not: "filter (\<lambda>c. \<not> P c) (dropWhile P cs) = filter (\<lambda>c. \<not> P c) cs"
  by (induction cs) auto

lemma re_sub_ws_filter: "re_sub_ws text = filter (\<lambda>c. \<not> is_space c) text"
proof (induction "text" rule: re_sub_ws.induct)
  case 1
  show ?case by (simp add: re_sub_ws.simps)
next
  case (2 c cs)
  then show ?case by (simp add: re_sub_ws.simps filter_dropWhile_not)
qed

definition replace_char :: "nat \<Rightarrow> ustring \<Rightarrow> nat \<Rightarrow> ustring" where
  "replace_char k new c = (if c = k then new else [c])"

lemma replace_ne_single: "replace_ne [k] new s = concat (map (replace_char k new) s)"
  by (induction s) (auto simp: replace_ne.simps replace_char_def)

lemma str_replace_single: "str_replace [k] new s = concat (map (replace_char k new) s)"
  by (simp add: str_replace_def replace_ne_single)

text \<open>
  A dictionary of one-character keys whose replacement strings contain no key acts on
  every character independently: the loop of replacements is one pass over the text.
\<close>

definition table_char :: "(ustring \<times> ustring) list \<Rightarrow> nat \<Rightarrow> ustring" where
  "table_char table c = (case map_of table [c] of None \<Rightarrow> [c] | Some new \<Rightarrow> new)"

lemma concat_map_concat_map:
  "concat (map f (concat (map g xs))) = concat (map (\<lambda>x. concat (map f (g x))) xs)"
  by (induction xs) auto

lemma table_char_fixed:
  assumes "\<forall>d \<in> set v. [d] \<notin> fst ` set table"
  shows "concat (map (table_char table) v) = v"
  using assms
proof (induction v)
  case Nil
  show ?case by simp
next
  case (Cons d v)
  then have "map_of table [d] = None" by (simp add: map_of_eq_None_iff)
  then show ?case using Cons by (simp add: table_char_def)
qed

lemma fold_replace_table:
  assumes "\<forall>(k, v) \<in> set table. length k = 1"
    and "\<forall>(k, v) \<in> set table. \<forall>d \<in> set v. [d] \<notin> fst ` set table"
  shows "fold (\<lambda>(cn_num, arab_num) text. str_replace cn_num arab_num text) table text
           = concat (map (table_char table) text)"
  using assms
proof (induction table arbitrary: "text")
  case Nil
  show ?case by (simp add: table_char_def)
next
  case (Cons kv table)
  obtain k v where kv: "kv = (k, v)" by (cases kv)
  have "length k = 1" using Cons.prems(1) kv by simp
  then obtain c where k: "k = [c]"
    by (cases k) simp_all
  have sub: "fst ` set table \<subseteq> fst ` set (kv # table)" by auto
  have fixed: "\<forall>d \<in> set v. [d] \<notin> fst ` set table"
  proof
    fix d assume "d \<in> set v"
    then have "[d] \<notin> fst ` set (kv # table)"
      using Cons.prems(2) kv by (simp del: image_insert)
    then show "[d] \<notin> fst ` set table" using sub by blast
  qed
  have p1: "\<forall>(k, v) \<in> set table. length k = 1"
    using Cons.prems(1) by simp
  have p2': "[d] \<notin> fst ` set table" if a: "(k', v') \<in> set table" "d \<in> set v'" for k' v' d
  proof -
    from a(1) have "(k', v') \<in> set (kv # table)" by simp
    with Cons.prems(2) have "\<forall>d \<in> set v'. [d] \<notin> fst ` set (kv # table)" by blast
    with a(2) have "[d] \<notin> fst ` set (kv # table)" by blast
    then show ?thesis using sub by blast
  qed
  have p2: "\<forall>(k, v) \<in> set table. \<forall>d \<in> set v. [d] \<notin> fst ` set table"
    using p2' by blast
  note ih = Cons.IH[OF p1 p2]
  have one: "concat (map (table_char table) (replace_char c v x)) = table_char ((k, v) # table) x"
    for x
    using table_char_fixed[OF fixed] by (simp add: replace_char_def table_char_def k)
  have "fold (\<lambda>(cn_num, arab_num) text. str_replace cn_num arab_num text) (kv # table) text
      = concat (map (table_char table) (concat (map (replace_char c v) text)))"
    by (simp add: kv k ih str_replace_single)
  also have "\<dots> = concat (map (table_char (kv # table)) text)"
    unfolding concat_map_concat_map by (simp add: one kv)
  finally show ?case .
qed

text \<open>
  What \<open>preprocess\<close> does to one character: whitespace disappears, a numeral of
  \<open>number_map\<close> becomes its digits, a full-width parenthesis its half-width form.
\<close>

definition normalize_char :: "nat \<Rightarrow> ustring" where
  "normalize_char c =
     (if is_space c then []
      else case map_of number_map [c] of
             Some digits \<Rightarrow> digits
           | None \<Rightarrow> if c = 0xFF08 then [0x28] else if c = 0xFF09 then [0x29] else [c])"

lemma number_map_keys:
  "fst ` set number_map = {[0x4E00], [0x4E8C], [0x4E09], [0x56DB], [0x4E94], [0x516D], [0x4E03],
     [0x516B], [0x4E5D], [0x5341], [0x58F9], [0x8D30], [0x53C1], [0x8086], [0x4F0D], [0x9646],
     [0x67D2], [0x634C], [0x7396], [0x62FE]}"
  by (simp add: number_map_def)

lemma number_map_fold:
  "fold (\<lambda>(cn_num, arab_num) text. str_replace cn_num arab_num text) number_map text
     = concat (map (table_char number_map) text)"
proof (rule fold_replace_table)
  show "\<forall>(k, v) \<in> set number_map. length k = 1"
    by (simp add: number_map_def)
  show "\<forall>(k, v) \<in> set number_map. \<forall>d \<in> set v. [d] \<notin> fst ` set number_map"
    unfolding number_map_keys by (simp add: number_map_def)
qed

lemma number_map_digits:
  "map_of number_map k = Some digits \<Longrightarrow> digits \<noteq> [] \<and> set digits \<subseteq> {0x30..0x39}"
  by (auto simp: number_map_def split: if_splits)

lemma replace_char_absent:
  "k \<notin> set s \<Longrightarrow> concat (map (replace_char k new) s) = s"
  by (induction s) (auto simp: replace_char_def)

lemma normalize_char_steps:
  assumes "\<not> is_space c"
  shows "concat (map (replace_char 0xFF09 [0x29]) (concat (map (replace_char 0xFF08 [0x28])
          (table_char number_map c)))) = normalize_char c"
proof (cases "map_of number_map [c]")
  case None
  then show ?thesis using assms
    by (simp add: table_char_def normalize_char_def replace_char_def)
next
  case (Some digits)
  from number_map_digits[OF Some] have "0xFF08 \<notin> set digits" "0xFF09 \<notin> set digits"
    by auto
  then show ?thesis using assms Some
    by (simp add: table_char_def normalize_char_def replace_char_absent)
qed

lemma preprocess_chars: "preprocess text = concat (map normalize_char text)"
proof -
  have "preprocess text = concat (map (\<lambda>c. concat (map (replace_char 0xFF09 [0x29])
          (concat (map (replace_char 0xFF08 [0x28]) (table_char number_map c)))))
          (filter (\<lambda>c. \<not> is_space c) text))"
    unfolding preprocess_def Let_def re_sub_ws_filter number_map_fold str_replace_single
    by (simp only: concat_map_concat_map)
  also have "\<dots> = concat (map normalize_char (filter (\<lambda>c. \<not> is_space c) text))"
    by (rule arg_cong[where f = concat], rule map_cong) (simp_all add: normalize_char_steps)
  also have "\<dots> = concat (map normalize_char text)"
    by (induction "text") (auto simp: normalize_char_def)
  finally show ?thesis .
qed

lemma str_strip_single: "str_strip [c] = (if is_space c then [] else [c])"
  by (simp add: str_strip_def)

lemma filter_rev_dropWhile:
  "filter (\<lambda>c. \<not> P c) (rev (dropWhile P (rev cs))) = filter (\<lambda>c. \<not> P c) cs"
proof -
  have "filter (\<lambda>c. \<not> P c) (rev (dropWhile P (rev cs)))
      = rev (filter (\<lambda>c. \<not> P c) (dropWhile P (rev cs)))"
    by (simp add: rev_filter)
  also have "\<dots> = rev (filter (\<lambda>c. \<not> P c) (rev cs))"
    by (simp only: filter_dropWhile_not)
  finally show ?thesis by (simp add: rev_filter)
qed

lemma filter_str_strip:
  "filter (\<lambda>c. \<not> is_space c) (str_strip text) = filter (\<lambda>c. \<not> is_space c) text"
  unfolding str_strip_def by (simp only: filter_rev_dropWhile filter_dropWhile_not)

lemma concat_map_strip_single:
  "concat (map (\<lambda>char. str_strip [char]) (filter (\<lambda>char. str_strip [char] \<noteq> []) cs))
     = filter (\<lambda>c. \<not> is_space c) cs"
  by (induction cs) (simp_all add: str_strip_single)

lemma preprocess_pipeline_filter:
  "preprocess_pipeline text = filter (\<lambda>c. \<not> is_space c) text"
  unfolding preprocess_pipeline_def Let_def re_sub_ws_filter concat_map_strip_single
  by (simp add: filter_str_strip)

section \<open>The normalization steps as the specification words them\<close>

text \<open>
  Step 1 removes every whitespace character, step 2 replaces every character of the
  numeral table by its digit string, step 3 replaces the full-width parentheses.
\<close>

definition numeral_table :: "(nat \<times> ustring) list" where
  "numeral_table =
     [(0x4E00, [0x31]), (0x4E8C, [0x32]), (0x4E09, [0x33]), (0x56DB, [0x34]), (0x4E94, [0x35]),
      (0x516D, [0x36]), (0x4E03, [0x37]), (0x516B, [0x38]), (0x4E5D, [0x39]),
      (0x5341, [0x31, 0x30]),
      (0x58F9, [0x31]), (0x8D30, [0x32]), (0x53C1, [0x33]), (0x8086, [0x34]), (0x4F0D, [0x35]),
      (0x9646, [0x36]), (0x67D2, [0x37]), (0x634C, [0x38]), (0x7396, [0x39]),
      (0x62FE, [0x31, 0x30])]"

definition step_whitespace :: "ustring \<Rightarrow> ustring" where
  "step_whitespace text = filter (\<lambda>c. \<not> is_space c) text"

definition step_numerals :: "ustring \<Rightarrow> ustring" where
  "step_numerals text =
     concat (map (\<lambda>c. case map_of numeral_table c of Some digits \<Rightarrow> digits | None \<Rightarrow> [c]) text)"

definition step_parentheses :: "ustring \<Rightarrow> ustring" where
  "step_parentheses text =
     map (\<lambda>c. if c = 0xFF08 then 0x28 else if c = 0xFF09 then 0x29 else c) text"

definition normalize_steps :: "ustring \<Rightarrow> ustring" where
  "normalize_steps text = step_parentheses (step_numerals (step_whitespace text))"

lemma numeral_table_number_map: "map_of numeral_table c = map_of number_map [c]"
  by (simp add: numeral_table_def number_map_def)

lemma step_parentheses_digits:
  "set digits \<subseteq> {0x30..0x39} \<Longrightarrow> step_parentheses digits = digits"
  unfolding step_parentheses_def by (induction digits) auto

lemma step_parentheses_concat:
  "step_parentheses (concat xss) = concat (map step_parentheses xss)"
  by (induction xss) (simp_all add: step_parentheses_def)

lemma normalize_steps_chars: "normalize_steps text = concat (map normalize_char text)"
proof -
  have one: "step_parentheses (case map_of numeral_table c of Some digits \<Rightarrow> digits | None \<Rightarrow> [c])
      = normalize_char c" if "\<not> is_space c" for c
  proof (cases "map_of number_map [c]")
    case None
    then show ?thesis using that
      by (simp add: numeral_table_number_map normalize_char_def step_parentheses_def)
  next
    case (Some digits)
    then show ?thesis using that number_map_digits[OF Some]
      by (simp add: numeral_table_number_map normalize_char_def step_parentheses_digits)
  qed
  have "normalize_steps text = concat (map (\<lambda>c. step_parentheses
          (case map_of numeral_table c of Some digits \<Rightarrow> digits | None \<Rightarrow> [c]))
          (filter (\<lambda>c. \<not> is_space c) text))"
    by (simp add: normalize_steps_def step_numerals_def step_whitespace_def
        step_parentheses_concat comp_def)
  also have "\<dots> = concat (map normalize_char (filter (\<lambda>c. \<not> is_space c) text))"
    by (rule arg_cong[where f = concat], rule map_cong) (simp_all add: one)
  also have "\<dots> = concat (map normalize_char text)"
    by (induction "text") (auto simp: normalize_char_def)
  finally show ?thesis .
qed

lemma normalize_char_digit:
  assumes "d \<in> {0x30..0x39} \<or> d = 0x28 \<or> d = 0x29"
  shows "normalize_char d = [d]"
proof -
  have "[d] \<notin> fst ` set number_map"
    unfolding number_map_keys using assms by auto
  then have "map_of number_map [d] = None"
    by (simp add: map_of_eq_None_iff)
  moreover have "\<not> is_space d" using assms by (auto simp: is_space_def)
  ultimately show ?thesis using assms by (auto simp: normalize_char_def)
qed

lemma normalize_char_stable:
  assumes "d \<in> set (normalize_char c)"
  shows "normalize_char d = [d]"
proof (cases "map_of number_map [c]")
  case None
  then have "d = 0x28 \<or> d = 0x29 \<or> (d = c \<and> \<not> is_space c \<and> c \<noteq> 0xFF08 \<and> c \<noteq> 0xFF09)"
    using assms by (auto simp: normalize_char_def split: if_splits)
  then consider "d = 0x28 \<or> d = 0x29"
    | "d = c" "\<not> is_space c" "c \<noteq> 0xFF08" "c \<noteq> 0xFF09" by blast
  then show ?thesis
  proof cases
    case 1
    then show ?thesis using normalize_char_digit[of d] by blast
  next
    case 2
    then show ?thesis using None by (simp add: normalize_char_def)
  qed
next
  case (Some digits)
  then have "d \<in> set digits" using assms by (auto simp: normalize_char_def split: if_splits)
  with number_map_digits[OF Some] show ?thesis using normalize_char_digit[of d] by blast
qed

lemma normalize_chars_stable:
  "(\<And>d. d \<in> set s \<Longrightarrow> normalize_char d = [d]) \<Longrightarrow> concat (map normalize_char s) = s"
  by (induction s) auto

lemma preprocess_idem: "preprocess (preprocess text) = preprocess text"
proof -
  have "d \<in> set (preprocess text) \<Longrightarrow> normalize_char d = [d]" for d
    unfolding preprocess_chars using normalize_char_stable by auto
  then show ?thesis
    using normalize_chars_stable[of "preprocess text"] by (simp add: preprocess_chars)
qed

lemma preprocess_clean:
  assumes "c \<in> set (preprocess text)"
  shows "\<not> is_space c \<and> map_of number_map [c] = None \<and> c \<noteq> 0xFF08 \<and> c \<noteq> 0xFF09"
proof -
  from assms obtain x where "c \<in> set (normalize_char x)"
    unfolding preprocess_chars by auto
  from normalize_char_stable[OF this] have stable: "normalize_char c = [c]" .
  from stable have sp: "\<not> is_space c" by (auto simp: normalize_char_def)
  have key: "map_of number_map [c] = None"
  proof (cases "map_of number_map [c]")
    case None
    then show ?thesis .
  next
    case (Some digits)
    with stable sp have "digits = [c]" by (simp add: normalize_char_def)
    with number_map_digits[OF Some] have "c \<in> {0x30..0x39}" by simp
    then have "[c] \<notin> fst ` set number_map" unfolding number_map_keys by auto
    then show ?thesis by (simp add: map_of_eq_None_iff)
  qed
  from stable sp key have "c \<noteq> 0xFF08 \<and> c \<noteq> 0xFF09"
    by (auto simp: normalize_char_def split: if_splits)
  with sp key show ?thesis by blast
qed

section \<open>The staged comparison and the weighted score\<close>

lemma preprocess_eval:
  "preprocess [] = []"
  "preprocess (c # cs) = normalize_char c @ preprocess cs"
  by (simp_all add: preprocess_chars)

lemma preprocess_pipeline_eval:
  "preprocess_pipeline [] = []"
  "preprocess_pipeline (c # cs) = (if is_space c then [] else [c]) @ preprocess_pipeline cs"
  by (simp_all add: preprocess_pipeline_filter)

lemma normalize_char_plain:
  "\<not> is_space c \<Longrightarrow> [c] \<notin> fst ` set number_map \<Longrightarrow> c \<noteq> 0xFF08 \<Longrightarrow> c \<noteq> 0xFF09
     \<Longrightarrow> normalize_char c = [c]"
  by (simp add: normalize_char_def map_of_eq_None_iff[THEN iffD2])

text \<open>
  C1. After normalizing both clauses the comparison is staged: equal normalized texts give
  verdict true, score 1.0 and the reason for an exact match; otherwise equal
  punctuation-stripped texts give verdict true, score 0.99 and the reason for a difference
  in punctuation only; in both cases no signal is computed (the result does not depend on
  the collaborators). Otherwise the weighted signals decide. This holds for the lightweight
  and for the pipeline variant.
\<close>

theorem C1_staged_gate:
  "is_consistent jieba_cut lazy_pinyin a b threshold =
     (if preprocess a = preprocess b then (True, 1, Str reason_exact)
      else if remove_punctuation (preprocess a) = remove_punctuation (preprocess b)
      then (True, 99 / 100, Str reason_punctuation)
      else let a' = remove_punctuation (preprocess a); b' = remove_punctuation (preprocess b);
               words_sim = get_words_similarity jieba_cut a' b';
               char_sim = get_char_similarity a' b';
               pinyin_sim = get_pinyin_similarity lazy_pinyin a' b';
               score = words_sim * (5 / 10) + char_sim * (3 / 10) + pinyin_sim * (2 / 10)
           in (score \<ge> threshold, score, Details words_sim char_sim pinyin_sim))
   \<and> is_consistent_pipeline encode lazy_pinyin a b threshold =
     (if preprocess_pipeline a = preprocess_pipeline b then (True, Some 1, StrP reason_exact)
      else if remove_punctuation (preprocess_pipeline a) = remove_punctuation (preprocess_pipeline b)
      then (True, Some (99 / 100), StrP reason_punctuation_pipeline)
      else let a' = remove_punctuation (preprocess_pipeline a);
               b' = remove_punctuation (preprocess_pipeline b);
               score = map_option
                 (\<lambda>semantic_sim. semantic_sim * (5 / 10) + get_char_similarity a' b' * (3 / 10)
                    + get_pinyin_similarity_pipeline lazy_pinyin a' b' * (2 / 10))
                 (get_semantic_similarity encode (preprocess_pipeline a) (preprocess_pipeline b));
               verdict = (case score of None \<Rightarrow> False | Some w \<Rightarrow> w \<ge> threshold)
           in (verdict, score,
               FormattedP (if verdict then reason_similar else reason_insufficient) score))"
  by (simp add: is_consistent_def is_consistent_pipeline_def Let_def)

theorem C1_staged_gate_witness:
  "is_consistent chars_as_tokens chars_as_tokens [0x7532, 0x3002] [0x20, 0x7532, 0x3002] (9 / 10)
     = (True, 1, Str reason_exact)
   \<and> is_consistent chars_as_tokens chars_as_tokens [0x7532, 0x3002] [0x7532] (9 / 10)
     = (True, 99 / 100, Str reason_punctuation)
   \<and> is_consistent_pipeline sign_encode chars_as_tokens [0x7532, 0x3002] [0x20, 0x7532, 0x3002] (9 / 10)
     = (True, Some 1, StrP reason_exact)
   \<and> is_consistent_pipeline sign_encode chars_as_tokens [0x7532, 0x3002] [0x7532] (9 / 10)
     = (True, Some (99 / 100), StrP reason_punctuation_pipeline)"
  using C1_staged_gate[of chars_as_tokens chars_as_tokens "[0x7532, 0x3002]" "[0x20, 0x7532, 0x3002]"
      "9 / 10" sign_encode]
    C1_staged_gate[of chars_as_tokens chars_as_tokens "[0x7532, 0x3002]" "[0x7532]"
      "9 / 10" sign_encode]
  by (simp add: preprocess_eval preprocess_pipeline_eval normalize_char_def number_map_def
      is_space_def remove_punctuation_def punctuation_def)


lemmas ratio_eval = ratio_def get_matching_blocks_def chain_b_def purge_popular_def
  b2j_append_def mb_loop.simps find_longest_match_def b2j_get_def j2len_get_def
  push_regions_def extend_back.simps extend_fwd.simps calculate_ratio_def upt_rec Let_def

lemmas words_eval = get_words_similarity_def Counter_def counter_keys_def counter_values_def
  counter_get_def stopwords_def Let_def


section \<open>Normalization: its steps and its idempotence\<close>

text \<open>
  C3 (as amended). In the lightweight variant, normalization of any text (the empty text
  included) is total and performs exactly, in this order: (1) delete all whitespace,
  (2) replace every character of the numeral table by its digit string, character by
  character, so that U+4E09 U+5341 becomes "310", (3) replace full-width parentheses by
  half-width ones. The pipeline variant deletes the whitespace and replaces no numeral;
  it returns the other characters as they are.
\<close>

theorem C3_normalization_steps:
  "preprocess text = normalize_steps text
   \<and> preprocess [] = []
   \<and> preprocess [0x4E09, 0x5341] = [0x33, 0x31, 0x30]
   \<and> preprocess_pipeline text = step_whitespace text"
proof -
  have "preprocess [0x4E09, 0x5341] = [0x33, 0x31, 0x30]"
    by (simp add: preprocess_eval normalize_char_def number_map_def is_space_def)
  then show ?thesis
    by (simp add: preprocess_chars normalize_steps_chars preprocess_pipeline_filter
        step_whitespace_def)
qed

theorem C3_normalization_steps_witness:
  "preprocess [0x20, 0x58F9, 0x0A, 0xFF08, 0x62FE, 0xFF09, 0x09] = [0x31, 0x28, 0x31, 0x30, 0x29]
   \<and> normalize_steps [0x20, 0x58F9, 0x0A, 0xFF08, 0x62FE, 0xFF09, 0x09] = [0x31, 0x28, 0x31, 0x30, 0x29]
   \<and> preprocess_pipeline [0x20, 0x58F9, 0x0A, 0xFF08, 0x62FE, 0xFF09, 0x09]
       = [0x58F9, 0xFF08, 0x62FE, 0xFF09]"
  using C3_normalization_steps[of "[0x20, 0x58F9, 0x0A, 0xFF08, 0x62FE, 0xFF09, 0x09]"]
  by (simp add: preprocess_eval normalize_char_def number_map_def is_space_def step_whitespace_def)

text \<open>
  The claim as stated fails for the pipeline variant, which the claim also cites: its
  \<open>preprocess\<close> has no numeral table.
\<close>

theorem C3_pipeline_counterexample:
  "preprocess_pipeline [0x4E09, 0x5341] = [0x4E09, 0x5341]
   \<and> preprocess_pipeline [0x4E09, 0x5341] \<noteq> [0x33, 0x31, 0x30]"
  by (simp add: preprocess_pipeline_eval is_space_def)

text \<open>
  C10. Normalization is idempotent: a second pass of \<open>preprocess\<close> returns its argument,
  because the output of the first pass holds no whitespace, no character of the numeral
  table and no full-width parenthesis.
\<close>

theorem C10_preprocess_idempotent:
  "preprocess (preprocess text) = preprocess text
   \<and> (\<forall>c \<in> set (preprocess text).
         \<not> is_space c \<and> map_of number_map [c] = None \<and> c \<noteq> 0xFF08 \<and> c \<noteq> 0xFF09)"
  using preprocess_idem preprocess_clean by blast

theorem C10_preprocess_idempotent_witness:
  "preprocess [0x20, 0x4E09, 0x5341, 0xFF08, 0x61] = [0x33, 0x31, 0x30, 0x28, 0x61]
   \<and> preprocess (preprocess [0x20, 0x4E09, 0x5341, 0xFF08, 0x61])
       = preprocess [0x20, 0x4E09, 0x5341, 0xFF08, 0x61]"
proof -
  have "preprocess [0x20, 0x4E09, 0x5341, 0xFF08, 0x61] = [0x33, 0x31, 0x30, 0x28, 0x61]"
    by (simp add: preprocess_eval normalize_char_def number_map_def is_space_def)
  then show ?thesis
    using C10_preprocess_idempotent[of "[0x20, 0x4E09, 0x5341, 0xFF08, 0x61]"] by blast
qed

section \<open>The word-bag signal in terms of multiplicities\<close>

lemma counter_get_add:
  "counter_get (counter_add w counter) x = counter_get counter x + (if x = w then 1 else 0)"
  by (induction w counter rule: counter_add.induct) (auto simp: counter_get_def)

lemma counter_keys_add:
  "set (counter_keys (counter_add w counter)) = insert w (set (counter_keys counter))"
  by (induction w counter rule: counter_add.induct) (auto simp: counter_keys_def)

lemma counter_values_add:
  "sum_list (counter_values (counter_add w counter)) = sum_list (counter_values counter) + 1"
  by (induction w counter rule: counter_add.induct) (auto simp: counter_values_def)

lemma fold_counter_add:
  "counter_get (fold counter_add ws counter) x = counter_get counter x + count_list ws x"
  "set (counter_keys (fold counter_add ws counter)) = set ws \<union> set (counter_keys counter)"
  "sum_list (counter_values (fold counter_add ws counter))
     = sum_list (counter_values counter) + length ws"
  by (induction ws arbitrary: counter)
     (auto simp: counter_get_add counter_keys_add counter_values_add)

lemma Counter_props:
  "counter_get (Counter ws) x = count_list ws x"
  "set (counter_keys (Counter ws)) = set ws"
  "sum_list (counter_values (Counter ws)) = length ws"
proof -
  have e: "counter_get [] x = 0" "set (counter_keys ([] :: ('a \<times> nat) list)) = {}"
    "sum_list (counter_values ([] :: ('a \<times> nat) list)) = 0"
    by (simp_all add: counter_get_def counter_keys_def counter_values_def)
  show "counter_get (Counter ws) x = count_list ws x"
    unfolding Counter_def fold_counter_add by (simp add: e)
  show "set (counter_keys (Counter ws)) = set ws"
    unfolding Counter_def fold_counter_add by (simp add: e)
  show "sum_list (counter_values (Counter ws)) = length ws"
    unfolding Counter_def fold_counter_add by (simp add: e)
qed

lemma get_words_similarity_counts:
  "get_words_similarity jieba_cut text1 text2 =
     (let words1 = filter (\<lambda>w. w \<notin> set stopwords) (jieba_cut text1);
          words2 = filter (\<lambda>w. w \<notin> set stopwords) (jieba_cut text2);
          common = set words1 \<inter> set words2
      in if common = {} then 0
         else real (\<Sum>w\<in>common. min (count_list words1 w) (count_list words2 w))
                / real (max (length words1) (length words2)))"
  by (simp add: get_words_similarity_def Let_def Counter_props)

text \<open>
  C4. The word-bag signal tokenizes both stripped texts, discards the stopwords and counts
  the tokens; when no token is common to both texts the score is 0.0, and otherwise it is
  the sum over the common tokens of the smaller of the two counts, divided by the larger of
  the two total token counts.
\<close>

theorem C4_word_bag:
  "get_words_similarity jieba_cut text1 text2 =
     (let words1 = filter (\<lambda>w. w \<notin> set stopwords) (jieba_cut text1);
          words2 = filter (\<lambda>w. w \<notin> set stopwords) (jieba_cut text2);
          common = set words1 \<inter> set words2
      in if common = {} then 0
         else real (\<Sum>w\<in>common. min (count_list words1 w) (count_list words2 w))
                / real (max (length words1) (length words2)))"
  by (rule get_words_similarity_counts)

theorem C4_word_bag_witness:
  "get_words_similarity chars_as_tokens [0x61, 0x7684, 0x62, 0x61] [0x61, 0x63] = 1 / 3
   \<and> get_words_similarity chars_as_tokens [0x61, 0x7684] [0x7684, 0x63] = 0"
  using C4_word_bag[of chars_as_tokens "[0x61, 0x7684, 0x62, 0x61]" "[0x61, 0x63]"]
    C4_word_bag[of chars_as_tokens "[0x61, 0x7684]" "[0x7684, 0x63]"]
  by (simp add: chars_as_tokens_def stopwords_def Let_def)

lemma get_words_similarity_sym:
  "get_words_similarity jieba_cut text1 text2 = get_words_similarity jieba_cut text2 text1"
  unfolding get_words_similarity_counts Let_def
  by (simp add: Int_commute min.commute max.commute)

lemma sum_min_count_le:
  "(\<Sum>w\<in>set ws1 \<inter> set ws2. min (count_list ws1 w) (count_list ws2 w)) \<le> length ws1"
proof -
  have "(\<Sum>w\<in>set ws1 \<inter> set ws2. min (count_list ws1 w) (count_list ws2 w))
      \<le> (\<Sum>w\<in>set ws1 \<inter> set ws2. count_list ws1 w)"
    by (rule sum_mono) simp
  also have "\<dots> \<le> (\<Sum>w\<in>set ws1. count_list ws1 w)"
    by (rule sum_mono2) auto
  also have "\<dots> = length ws1"
    by (simp add: sum_count_set)
  finally show ?thesis .
qed

lemma nat_quotient_range:
  fixes n d :: nat
  assumes "n \<le> d"
  shows "0 \<le> real n / real d \<and> real n / real d \<le> 1"
proof -
  show ?thesis
  proof (cases "d = 0")
    case True
    then show ?thesis by simp
  next
    case False
    then show ?thesis using assms by (simp add: divide_le_eq_1)
  qed
qed

lemma get_words_similarity_range:
  "0 \<le> get_words_similarity jieba_cut text1 text2 \<and> get_words_similarity jieba_cut text1 text2 \<le> 1"
proof -
  define w1 where "w1 = filter (\<lambda>w. w \<notin> set stopwords) (jieba_cut text1)"
  define w2 where "w2 = filter (\<lambda>w. w \<notin> set stopwords) (jieba_cut text2)"
  define n where "n = (\<Sum>w\<in>set w1 \<inter> set w2. min (count_list w1 w) (count_list w2 w))"
  have "n \<le> max (length w1) (length w2)"
    unfolding n_def using sum_min_count_le[of w1 w2] by linarith
  from nat_quotient_range[OF this]
  have "0 \<le> real n / real (max (length w1) (length w2))
      \<and> real n / real (max (length w1) (length w2)) \<le> 1" .
  moreover have "get_words_similarity jieba_cut text1 text2 =
      (if set w1 \<inter> set w2 = {} then 0 else real n / real (max (length w1) (length w2)))"
    unfolding get_words_similarity_counts Let_def w1_def w2_def n_def by (rule refl)
  ultimately show ?thesis by (simp del: of_nat_max)
qed

section \<open>Degenerate input of the simplified variant\<close>

text \<open>
  C5. The claim says that every signal returns a defined score on degenerate input, in
  particular that the Jaccard signal returns 1.0 when both token sets are empty. The code
  divides by the size of the union without a guard: on two texts without tokens (two empty
  texts) \<open>calculate_similarities\<close> raises, whatever the vectorizer does. With exactly one
  empty token set the Jaccard value is 0.0, as the claim says.
\<close>

theorem C5_jaccard_raises_on_empty:
  assumes "jieba_cut [] = []"
  shows "calculate_similarities jieba_cut tfidf_cosine [] [] =
           (case tfidf_cosine [] [] of Inl e \<Rightarrow> Inl e | Inr c \<Rightarrow> Inl ZeroDivisionError)"
  using assms by (simp add: calculate_similarities_def Let_def split: sum.splits)

theorem C5_jaccard_raises_on_empty_witness:
  "chars_as_tokens [] = []
   \<and> calculate_similarities chars_as_tokens (\<lambda>text1_seg text2_seg. Inr 0) [] []
       = Inl ZeroDivisionError"
proof -
  have h: "chars_as_tokens [] = []" by (simp add: chars_as_tokens_def)
  from C5_jaccard_raises_on_empty[where jieba_cut = chars_as_tokens
      and tfidf_cosine = "\<lambda>text1_seg text2_seg. Inr 0"] h
  show ?thesis by simp
qed

lemma jaccard_one_empty:
  assumes "jieba_cut text1 = []" "jieba_cut text2 \<noteq> []" "tfidf_cosine [] (join [0x20] (jieba_cut text2)) = Inr c"
  shows "\<exists>r. calculate_similarities jieba_cut tfidf_cosine text1 text2 = Inr r \<and> jaccard_similarity r = 0"
  using assms by (simp add: calculate_similarities_def Let_def)

section \<open>Symmetry\<close>

text \<open>
  C6 (as amended). The word-bag signal is symmetric, and comparing A with B gives the same
  result as comparing B with A whenever the character-sequence ratio and the phonetic ratio
  of the two stripped texts do not depend on the order of the arguments; in particular
  whenever one of the two early returns applies. The ratios themselves are not symmetric.
\<close>

theorem C6_symmetry_up_to_ratio:
  "get_words_similarity jieba_cut text1 text2 = get_words_similarity jieba_cut text2 text1
   \<and> (preprocess a = preprocess b
        \<or> remove_punctuation (preprocess a) = remove_punctuation (preprocess b)
        \<or> (get_char_similarity (remove_punctuation (preprocess a)) (remove_punctuation (preprocess b))
             = get_char_similarity (remove_punctuation (preprocess b)) (remove_punctuation (preprocess a))
           \<and> get_pinyin_similarity lazy_pinyin (remove_punctuation (preprocess a)) (remove_punctuation (preprocess b))
             = get_pinyin_similarity lazy_pinyin (remove_punctuation (preprocess b)) (remove_punctuation (preprocess a)))
       \<longrightarrow> is_consistent jieba_cut lazy_pinyin a b threshold
           = is_consistent jieba_cut lazy_pinyin b a threshold)"
proof -
  have w: "get_words_similarity jieba_cut x y = get_words_similarity jieba_cut y x" for x y
    by (rule get_words_similarity_sym)
  show ?thesis
    using w[of "remove_punctuation (preprocess a)" "remove_punctuation (preprocess b)"]
    by (auto simp: is_consistent_def Let_def get_words_similarity_sym[of jieba_cut text1 text2])
qed

theorem C6_symmetry_up_to_ratio_witness:
  "get_char_similarity (remove_punctuation (preprocess [0x61, 0x62])) (remove_punctuation (preprocess [0x62, 0x61]))
     = get_char_similarity (remove_punctuation (preprocess [0x62, 0x61])) (remove_punctuation (preprocess [0x61, 0x62]))
   \<and> get_pinyin_similarity chars_as_tokens (remove_punctuation (preprocess [0x61, 0x62])) (remove_punctuation (preprocess [0x62, 0x61]))
     = get_pinyin_similarity chars_as_tokens (remove_punctuation (preprocess [0x62, 0x61])) (remove_punctuation (preprocess [0x61, 0x62]))
   \<and> is_consistent chars_as_tokens chars_as_tokens [0x61, 0x62] [0x62, 0x61] (9 / 10)
       = is_consistent chars_as_tokens chars_as_tokens [0x62, 0x61] [0x61, 0x62] (9 / 10)"
proof -
  have p: "preprocess [0x61, 0x62] = [0x61, 0x62]" "preprocess [0x62, 0x61] = [0x62, 0x61]"
    by (simp_all add: preprocess_eval normalize_char_def number_map_def is_space_def)
  have r: "remove_punctuation [0x61, 0x62] = [0x61, 0x62]" "remove_punctuation [0x62, 0x61] = [0x62, 0x61]"
    by (simp_all add: remove_punctuation_def punctuation_def)
  have c: "get_char_similarity [0x61, 0x62] [0x62, 0x61] = 1 / 2"
    "get_char_similarity [0x62, 0x61] [0x61, 0x62] = 1 / 2"
    by (simp_all add: get_char_similarity_def ratio_eval)
  have y: "get_pinyin_similarity chars_as_tokens [0x61, 0x62] [0x62, 0x61] = 1 / 2"
    "get_pinyin_similarity chars_as_tokens [0x62, 0x61] [0x61, 0x62] = 1 / 2"
    by (simp_all add: get_pinyin_similarity_def chars_as_tokens_def ratio_eval)
  from C6_symmetry_up_to_ratio[where a = "[0x61, 0x62]" and b = "[0x62, 0x61]"
      and jieba_cut = chars_as_tokens and lazy_pinyin = chars_as_tokens and threshold = "9 / 10"]
  show ?thesis by (simp add: p r c y)
qed

text \<open>
  The claim as stated fails: \<open>SequenceMatcher\<close> prefers the block that starts earliest in
  its first argument, so the ratio of "tide" and "diet" is 0.25 one way round and 0.5 the
  other. With a tokenizer and a romanizer that emit one token per character, swapping the
  clauses "aababc" and "abaabc" changes the score from 5/6 to 11/12 and the verdict at the
  default threshold 0.9 from false to true.
\<close>

theorem C6_ratio_asymmetric_counterexample:
  "get_char_similarity [0x74, 0x69, 0x64, 0x65] [0x64, 0x69, 0x65, 0x74] = 1 / 4
   \<and> get_char_similarity [0x64, 0x69, 0x65, 0x74] [0x74, 0x69, 0x64, 0x65] = 1 / 2
   \<and> is_consistent chars_as_tokens chars_as_tokens
         [0x61, 0x61, 0x62, 0x61, 0x62, 0x63] [0x61, 0x62, 0x61, 0x61, 0x62, 0x63] (9 / 10)
       = (False, 5 / 6, Details 1 (2 / 3) (2 / 3))
   \<and> is_consistent chars_as_tokens chars_as_tokens
         [0x61, 0x62, 0x61, 0x61, 0x62, 0x63] [0x61, 0x61, 0x62, 0x61, 0x62, 0x63] (9 / 10)
       = (True, 11 / 12, Details 1 (5 / 6) (5 / 6))"
proof -
  let ?a = "[0x61, 0x61, 0x62, 0x61, 0x62, 0x63] :: ustring"
  let ?b = "[0x61, 0x62, 0x61, 0x61, 0x62, 0x63] :: ustring"
  have t: "get_char_similarity [0x74, 0x69, 0x64, 0x65] [0x64, 0x69, 0x65, 0x74] = 1 / 4"
    "get_char_similarity [0x64, 0x69, 0x65, 0x74] [0x74, 0x69, 0x64, 0x65] = 1 / 2"
    by (simp_all add: get_char_similarity_def ratio_eval)
  have p: "preprocess ?a = ?a" "preprocess ?b = ?b"
    by (simp_all add: preprocess_eval normalize_char_def number_map_def is_space_def)
  have r: "remove_punctuation ?a = ?a" "remove_punctuation ?b = ?b"
    by (simp_all add: remove_punctuation_def punctuation_def)
  have c: "get_char_similarity ?a ?b = 2 / 3" "get_char_similarity ?b ?a = 5 / 6"
    by (simp_all add: get_char_similarity_def ratio_eval)
  have y: "get_pinyin_similarity chars_as_tokens ?a ?b = 2 / 3"
    "get_pinyin_similarity chars_as_tokens ?b ?a = 5 / 6"
    by (simp_all add: get_pinyin_similarity_def chars_as_tokens_def ratio_eval)
  have w: "get_words_similarity chars_as_tokens ?a ?b = 1"
    "get_words_similarity chars_as_tokens ?b ?a = 1"
    by (simp_all add: words_eval chars_as_tokens_def)
  show ?thesis
    by (simp add: is_consistent_def Let_def t p r c y w)
qed

section \<open>Range of the signals and of the fused score\<close>

lemma is_consistent_score_range:
  "0 \<le> fst (snd (is_consistent jieba_cut lazy_pinyin a b threshold))
   \<and> fst (snd (is_consistent jieba_cut lazy_pinyin a b threshold)) \<le> 1"
proof -
  define a' where "a' = remove_punctuation (preprocess a)"
  define b' where "b' = remove_punctuation (preprocess b)"
  have w: "0 \<le> get_words_similarity jieba_cut a' b'" "get_words_similarity jieba_cut a' b' \<le> 1"
    using get_words_similarity_range[of jieba_cut a' b'] by simp_all
  have c: "0 \<le> get_char_similarity a' b'" "get_char_similarity a' b' \<le> 1"
    using ratio_range[of a' b'] by (simp_all add: get_char_similarity_def)
  have y: "0 \<le> get_pinyin_similarity lazy_pinyin a' b'" "get_pinyin_similarity lazy_pinyin a' b' \<le> 1"
    using ratio_range[of "lazy_pinyin a'" "lazy_pinyin b'"]
    by (simp_all add: get_pinyin_similarity_def)
  have "0 \<le> get_words_similarity jieba_cut a' b' * (5 / 10) + get_char_similarity a' b' * (3 / 10)
          + get_pinyin_similarity lazy_pinyin a' b' * (2 / 10)"
    "get_words_similarity jieba_cut a' b' * (5 / 10) + get_char_similarity a' b' * (3 / 10)
          + get_pinyin_similarity lazy_pinyin a' b' * (2 / 10) \<le> 1"
    using w c y by linarith+
  then show ?thesis
    unfolding is_consistent_def Let_def a'_def b'_def by simp
qed

text \<open>
  C7 (as amended). In the lightweight variant every signal value and the fused score lie
  in the closed interval from 0 to 1, for all inputs; so do the character-sequence and
  phonetic signals of the pipeline variant. The semantic signal of the pipeline variant is
  a cosine and can be negative, and so can the fused score built from it.
\<close>

theorem C7_lightweight_range:
  "0 \<le> get_words_similarity jieba_cut text1 text2 \<and> get_words_similarity jieba_cut text1 text2 \<le> 1
   \<and> 0 \<le> get_char_similarity text1 text2 \<and> get_char_similarity text1 text2 \<le> 1
   \<and> 0 \<le> get_pinyin_similarity lazy_pinyin text1 text2
   \<and> get_pinyin_similarity lazy_pinyin text1 text2 \<le> 1
   \<and> 0 \<le> get_pinyin_similarity_pipeline lazy_pinyin text1 text2
   \<and> get_pinyin_similarity_pipeline lazy_pinyin text1 text2 \<le> 1
   \<and> 0 \<le> fst (snd (is_consistent jieba_cut lazy_pinyin a b threshold))
   \<and> fst (snd (is_consistent jieba_cut lazy_pinyin a b threshold)) \<le> 1"
  using get_words_similarity_range[of jieba_cut text1 text2] ratio_range[of text1 text2]
    ratio_range[of "lazy_pinyin text1" "lazy_pinyin text2"]
    ratio_range[of "join [0x20] (lazy_pinyin text1)" "join [0x20] (lazy_pinyin text2)"]
    is_consistent_score_range[of jieba_cut lazy_pinyin a b threshold]
  by (simp add: get_char_similarity_def get_pinyin_similarity_def
      get_pinyin_similarity_pipeline_def Let_def)

theorem C7_lightweight_range_witness:
  "is_consistent chars_as_tokens chars_as_tokens [0x61, 0x62] [0x62, 0x61] (9 / 10)
     = (False, 3 / 4, Details 1 (1 / 2) (1 / 2))
   \<and> 0 \<le> fst (snd (is_consistent chars_as_tokens chars_as_tokens [0x61, 0x62] [0x62, 0x61] (9 / 10)))
   \<and> fst (snd (is_consistent chars_as_tokens chars_as_tokens [0x61, 0x62] [0x62, 0x61] (9 / 10))) \<le> 1"
proof -
  have p: "preprocess [0x61, 0x62] = [0x61, 0x62]" "preprocess [0x62, 0x61] = [0x62, 0x61]"
    by (simp_all add: preprocess_eval normalize_char_def number_map_def is_space_def)
  have r: "remove_punctuation [0x61, 0x62] = [0x61, 0x62]" "remove_punctuation [0x62, 0x61] = [0x62, 0x61]"
    by (simp_all add: remove_punctuation_def punctuation_def)
  have w: "get_words_similarity chars_as_tokens [0x61, 0x62] [0x62, 0x61] = 1"
    by (simp add: words_eval chars_as_tokens_def)
  have c: "get_char_similarity [0x61, 0x62] [0x62, 0x61] = 1 / 2"
    by (simp add: get_char_similarity_def ratio_eval)
  have y: "get_pinyin_similarity chars_as_tokens [0x61, 0x62] [0x62, 0x61] = 1 / 2"
    by (simp add: get_pinyin_similarity_def chars_as_tokens_def ratio_eval)
  have "is_consistent chars_as_tokens chars_as_tokens [0x61, 0x62] [0x62, 0x61] (9 / 10)
     = (False, 3 / 4, Details 1 (1 / 2) (1 / 2))"
    by (simp add: is_consistent_def Let_def p r w c y)
  then show ?thesis
    using C7_lightweight_range[where a = "[0x61, 0x62]" and b = "[0x62, 0x61]"
      and jieba_cut = chars_as_tokens and lazy_pinyin = chars_as_tokens and threshold = "9 / 10"]
    by simp
qed

theorem C7_semantic_negative_counterexample:
  "get_semantic_similarity sign_encode [0x61] [0x62, 0x63] = Some (- 1)
   \<and> is_consistent_pipeline sign_encode chars_as_tokens [0x61] [0x62, 0x63] (9 / 10)
       = (False, Some (- 1 / 2), FormattedP reason_insufficient (Some (- 1 / 2)))"
proof -
  have p: "preprocess_pipeline [0x61] = [0x61]" "preprocess_pipeline [0x62, 0x63] = [0x62, 0x63]"
    by (simp_all add: preprocess_pipeline_eval is_space_def)
  have r: "remove_punctuation [0x61] = [0x61]" "remove_punctuation [0x62, 0x63] = [0x62, 0x63]"
    by (simp_all add: remove_punctuation_def punctuation_def)
  have s: "get_semantic_similarity sign_encode [0x61] [0x62, 0x63] = Some (- 1)"
    by (simp add: get_semantic_similarity_def sign_encode_def np_dot_def np_linalg_norm_def Let_def)
  have c: "get_char_similarity [0x61] [0x62, 0x63] = 0"
    by (simp add: get_char_similarity_def ratio_eval)
  have y: "get_pinyin_similarity_pipeline chars_as_tokens [0x61] [0x62, 0x63] = 0"
    by (simp add: get_pinyin_similarity_pipeline_def chars_as_tokens_def ratio_eval)
  show ?thesis
    by (simp add: is_consistent_pipeline_def Let_def p r s c y)
qed

section \<open>Clauses that differ in punctuation only\<close>








section \<open>The phonetic signal: syllables as atoms\<close>

text \<open>
  \<open>SequenceMatcher\<close> only ever tests two elements for equality, so renaming the
  elements by an injective function does not change the matching blocks or the ratio.
\<close>

lemma b2j_append_map:
  assumes "inj f" "\<And>x. m' (f x) = m x"
  shows "b2j_append (i, f y) m' (f x) = b2j_append (i, y) m x"
  using assms by (auto simp: b2j_append_def inj_eq)














end
